theory Spec2Isabelle
  imports Main
begin

section \<open>Data model of create-product-variants.tsx\<close>

text \<open>
  The option groups arrive from the option-groups editor as
  \<^verbatim>\<open>{ name: string, values: Array<{ value: string, id: string }> }\<close>.
  Field names carry a short prefix of their type, since several of the source's
  types share the names \<^verbatim>\<open>id\<close>, \<^verbatim>\<open>name\<close>, \<^verbatim>\<open>value\<close>, \<^verbatim>\<open>sku\<close>, ...
\<close>

record OptionValue =
  ov_value :: string
  ov_id :: string

record OptionGroup =
  og_name :: string
  og_values :: "OptionValue list"

text \<open>\<^verbatim>\<open>type VariantOption = { name: string; value: string; id: string }\<close>\<close>

record VariantOption =
  vo_name :: string
  vo_value :: string
  vo_id :: string

text \<open>\<^verbatim>\<open>type GeneratedVariant\<close>\<close>

record GeneratedVariant =
  gv_id :: string
  gv_name :: string
  gv_values :: "string list"
  gv_options :: "VariantOption list"
  gv_enabled :: bool
  gv_sku :: string
  gv_price :: string
  gv_stock :: string

text \<open>
  An entry of the form's \<^verbatim>\<open>variants\<close> record. The watch callback receives a deep-partial
  value, so each field may be missing (\<open>None\<close>); that is what the \<^verbatim>\<open>??\<close> defaults of
  the emission are for.
\<close>

record VariantForm =
  vf_enabled :: "bool option"
  vf_sku :: "string option"
  vf_price :: "string option"
  vf_stock :: "string option"

text \<open>
  The form's \<^verbatim>\<open>variants: Record<string, VariantForm>\<close> is a finite map from variant id
  to entry: the map holds the record's own properties. The record is a plain object, so
  reading \<^verbatim>\<open>record[key]\<close> also finds what the object inherits; see \<open>getProperty\<close>.
\<close>

type_synonym VariantRecord = "string \<rightharpoonup> VariantForm"

text \<open>
  The members that a plain object inherits from \<^verbatim>\<open>Object.prototype\<close>. Each of them is a
  function, or for \<^verbatim>\<open>__proto__\<close> the prototype object itself: a truthy value on which
  none of \<^verbatim>\<open>enabled\<close>, \<^verbatim>\<open>sku\<close>, \<^verbatim>\<open>price\<close> and \<^verbatim>\<open>stock\<close> is defined.
\<close>

definition inheritedMembers :: "string list" where
  "inheritedMembers =
     [''constructor'', ''__defineGetter__'', ''__defineSetter__'', ''hasOwnProperty'',
      ''__lookupGetter__'', ''__lookupSetter__'', ''isPrototypeOf'', ''propertyIsEnumerable'',
      ''toString'', ''valueOf'', ''__proto__'', ''toLocaleString'']"

text \<open>What the code can read of an inherited member: none of the four fields.\<close>

definition inheritedMember :: VariantForm where
  "inheritedMember =
     \<lparr>vf_enabled = None, vf_sku = None, vf_price = None, vf_stock = None\<rparr>"

text \<open>
  The read \<^verbatim>\<open>obj[key]\<close> on a record: the own property when there is one, else the
  inherited member when the key names one, else \<^verbatim>\<open>undefined\<close> (\<open>None\<close>). Every value
  it finds is an object or a function, hence truthy.
\<close>

definition getProperty :: "VariantRecord \<Rightarrow> string \<Rightarrow> VariantForm option" where
  "getProperty obj key =
     (case obj key of
        Some entry \<Rightarrow> Some entry
      | None \<Rightarrow> if key \<in> set inheritedMembers then Some inheritedMember else None)"

text \<open>The value handed to the watch callback and returned by \<^verbatim>\<open>form.getValues()\<close>.\<close>

record FormValues =
  fv_variants :: "VariantRecord option"

text \<open>An element of \<^verbatim>\<open>VariantConfiguration['variants']\<close>.\<close>

record ActiveVariant =
  av_enabled :: bool
  av_sku :: string
  av_price :: string
  av_stock :: string
  av_options :: "VariantOption list"

text \<open>\<^verbatim>\<open>interface VariantConfiguration\<close>\<close>

record VariantConfiguration =
  vc_optionGroups :: "OptionGroup list"
  vc_variants :: "ActiveVariant list"

text \<open>
  The one exception the generator's code can raise: reading \<^verbatim>\<open>.values\<close> of the
  \<^verbatim>\<open>undefined\<close> that an out-of-range array index yields.
\<close>

datatype error = TypeError

section \<open>The combination generator\<close>

text \<open>\<^verbatim>\<open>Array.prototype.join(separator)\<close> on an array of strings.\<close>

fun join :: "string \<Rightarrow> string list \<Rightarrow> string" where
  "join sep [] = []"
| "join sep [x] = x"
| "join sep (x # y # ys) = x @ sep @ join sep (y # ys)"

text \<open>The variant returned by both early exits of \<^verbatim>\<open>generateVariants\<close>.\<close>

definition defaultVariant :: GeneratedVariant where
  "defaultVariant =
     \<lparr>gv_id = ''default'', gv_name = [], gv_values = [], gv_options = [],
      gv_enabled = True, gv_sku = [], gv_price = [], gv_stock = []\<rparr>"

text \<open>The variant built at \<^verbatim>\<open>currentIndex === optionGroups.length\<close>.\<close>

definition variantOf :: "VariantOption list \<Rightarrow> GeneratedVariant" where
  "variantOf currentCombination =
     \<lparr>gv_id = join ''-'' (map vo_id currentCombination),
      gv_name = join '' '' (map vo_value currentCombination),
      gv_values = map vo_value currentCombination,
      gv_options = currentCombination,
      gv_enabled = True, gv_sku = [], gv_price = [], gv_stock = []\<rparr>"

text \<open>
  \<^verbatim>\<open>generateCombinations(optionGroups, currentIndex, currentCombination)\<close>. The
  \<^verbatim>\<open>forEach\<close> over the current group's values is a fold whose accumulator is the
  \<^verbatim>\<open>results\<close> array; an exception of a recursive call ends the loop and propagates.
  An index beyond the array reads \<^verbatim>\<open>undefined\<close>, whose \<^verbatim>\<open>.values\<close> raises.
\<close>

function generateCombinations ::
  "OptionGroup list \<Rightarrow> nat \<Rightarrow> VariantOption list \<Rightarrow> error + GeneratedVariant list" where
  "generateCombinations optionGroups currentIndex currentCombination =
     (if currentIndex = length optionGroups then Inr [variantOf currentCombination]
      else if length optionGroups < currentIndex then Inl TypeError
      else
        (let currentGroup = optionGroups ! currentIndex in
         fold (\<lambda>optionValue results.
                 case results of
                   Inl e \<Rightarrow> Inl e
                 | Inr rs \<Rightarrow>
                     (let newCombination = currentCombination @
                            [\<lparr>vo_name = og_name currentGroup,
                              vo_value = ov_value optionValue,
                              vo_id = ov_id optionValue\<rparr>]
                      in case generateCombinations optionGroups (currentIndex + 1) newCombination of
                           Inl e \<Rightarrow> Inl e
                         | Inr subResults \<Rightarrow> Inr (rs @ subResults)))
              (og_values currentGroup) (Inr [])))"
  by pat_completeness auto
termination
  by (relation "measure (\<lambda>(optionGroups, currentIndex, _). length optionGroups - currentIndex)")
    auto

text \<open>
  \<^verbatim>\<open>generateVariants(groups)\<close>. A string is truthy when it is not empty; an array is
  always truthy, so \<^verbatim>\<open>group.values &&\<close> holds for every group of the declared type.
\<close>

definition generateVariants :: "OptionGroup list \<Rightarrow> error + GeneratedVariant list" where
  "generateVariants groups =
     (if length groups = 0 then Inr [defaultVariant]
      else
        (let validGroups = filter (\<lambda>group. og_name group \<noteq> [] \<and> length (og_values group) > 0) groups
         in if length validGroups = 0 then Inr [defaultVariant]
            else generateCombinations validGroups 0 []))"

section \<open>Reconciliation of the edited record\<close>

text \<open>
  The body of the second effect of \<^verbatim>\<open>CreateProductVariants\<close> (it has no name in the
  source): starting from a copy of \<^verbatim>\<open>form.getValues().variants || {}\<close>, every generated
  variant for whose id the read \<^verbatim>\<open>updatedVariants[variant.id]\<close> finds nothing gets the
  initial entry as an own property; the result is the record passed to
  \<^verbatim>\<open>setValue('variants', updatedVariants)\<close>. The spread copies the own properties.
\<close>

definition initialEntry :: VariantForm where
  "initialEntry =
     \<lparr>vf_enabled = Some True, vf_sku = Some [], vf_price = Some [], vf_stock = Some []\<rparr>"

definition syncVariants :: "FormValues \<Rightarrow> GeneratedVariant list \<Rightarrow> VariantRecord" where
  "syncVariants formValues variants =
     (let currentVariants = (case fv_variants formValues of None \<Rightarrow> Map.empty | Some r \<Rightarrow> r);
          updatedVariants =
            fold (\<lambda>variant updatedVariants.
                    if getProperty updatedVariants (gv_id variant) = None
                    then updatedVariants(gv_id variant \<mapsto> initialEntry)
                    else updatedVariants)
                 variants currentVariants
      in updatedVariants)"

section \<open>Output filtering and emission\<close>

text \<open>The nullish coalescing operator \<^verbatim>\<open>a ?? b\<close>.\<close>

definition nullish :: "'a option \<Rightarrow> 'a \<Rightarrow> 'a" where
  "nullish a b = (case a of None \<Rightarrow> b | Some x \<Rightarrow> x)"

text \<open>
  The object pushed onto \<^verbatim>\<open>activeVariants\<close> for a variant and the truthy
  \<^verbatim>\<open>formVariant\<close> read for its id.
\<close>

definition activeVariantOf :: "VariantForm \<Rightarrow> GeneratedVariant \<Rightarrow> ActiveVariant" where
  "activeVariantOf formVariant variant =
     \<lparr>av_enabled = nullish (vf_enabled formVariant) True,
      av_sku = nullish (vf_sku formVariant) [],
      av_price = nullish (vf_price formVariant) [],
      av_stock = nullish (vf_stock formVariant) [],
      av_options = gv_options variant\<rparr>"

text \<open>
  The \<^verbatim>\<open>filteredData\<close> that the watch callback builds from the watched
  \<^verbatim>\<open>value\<close>: \<^verbatim>\<open>value?.variants || {}\<close> is the empty record when the value or its
  \<^verbatim>\<open>variants\<close> is missing. Every generated variant is an object, so the guard
  \<^verbatim>\<open>variant && typeof variant === 'object'\<close> always holds.
\<close>

definition filteredData ::
  "OptionGroup list \<Rightarrow> GeneratedVariant list \<Rightarrow> FormValues option \<Rightarrow> VariantConfiguration" where
  "filteredData optionGroups variants value =
     (let formVariants =
            (case value of
               None \<Rightarrow> Map.empty
             | Some v \<Rightarrow> (case fv_variants v of None \<Rightarrow> Map.empty | Some r \<Rightarrow> r));
          activeVariants =
            fold (\<lambda>variant activeVariants.
                    case getProperty formVariants (gv_id variant) of
                      None \<Rightarrow> activeVariants
                    | Some formVariant \<Rightarrow>
                        activeVariants @ [activeVariantOf formVariant variant])
                 variants []
      in \<lparr>vc_optionGroups = optionGroups, vc_variants = activeVariants\<rparr>)"

text \<open>
  The watch callback: \<^verbatim>\<open>onChange?.({ data: filteredData })\<close>. The sink is the list of
  payloads that \<^verbatim>\<open>onChange\<close> has received; without an \<^verbatim>\<open>onChange\<close> nothing is emitted.
\<close>

definition watchCallback ::
  "bool \<Rightarrow> OptionGroup list \<Rightarrow> GeneratedVariant list \<Rightarrow> FormValues option \<Rightarrow>
   VariantConfiguration list \<Rightarrow> VariantConfiguration list" where
  "watchCallback hasOnChange optionGroups variants value emitted =
     (if hasOnChange then emitted @ [filteredData optionGroups variants value] else emitted)"

section \<open>Notions of the specification\<close>

text \<open>A group is valid when its name is not empty and it has at least one value.\<close>

definition validGroup :: "OptionGroup \<Rightarrow> bool" where
  "validGroup g \<longleftrightarrow> og_name g \<noteq> [] \<and> og_values g \<noteq> []"

text \<open>The options one group offers to a combination, in the order of its values.\<close>

definition groupOptions :: "OptionGroup \<Rightarrow> VariantOption list" where
  "groupOptions g =
     map (\<lambda>v. \<lparr>vo_name = og_name g, vo_value = ov_value v, vo_id = ov_id v\<rparr>) (og_values g)"

text \<open>
  The option that value number \<open>i\<close> of a group contributes, and the combination that
  takes value number \<open>js ! k\<close> from the \<open>k\<close>-th group of \<open>gs\<close>.
\<close>

definition optionAt :: "OptionGroup \<Rightarrow> nat \<Rightarrow> VariantOption" where
  "optionAt g i =
     \<lparr>vo_name = og_name g, vo_value = ov_value (og_values g ! i),
      vo_id = ov_id (og_values g ! i)\<rparr>"

definition selection :: "OptionGroup list \<Rightarrow> nat list \<Rightarrow> VariantOption list" where
  "selection gs js = map2 optionAt gs js"

section \<open>The generator in closed form\<close>

lemma fold_results:
  assumes "\<And>x. x \<in> set xs \<Longrightarrow> f x = Inr (g x)"
  shows "fold (\<lambda>x results. case results of Inl e \<Rightarrow> Inl e
            | Inr rs \<Rightarrow> (case f x of Inl e \<Rightarrow> Inl e | Inr sub \<Rightarrow> Inr (rs @ sub))) xs (Inr acc)
         = Inr (acc @ concat (map g xs))"
  using assms by (induction xs arbitrary: acc) auto

text \<open>
  From an index within the array the recursion never raises, and it returns the
  combinations of the remaining groups, each appended to the current combination.
\<close>

lemma generateCombinations_drop:
  "currentIndex \<le> length optionGroups \<Longrightarrow>
   generateCombinations optionGroups currentIndex currentCombination =
     Inr (map (\<lambda>suffix. variantOf (currentCombination @ suffix))
            (product_lists (map groupOptions (drop currentIndex optionGroups))))"
proof (induction optionGroups currentIndex currentCombination rule: generateCombinations.induct)
  case (1 gs i c)
  show ?case
  proof (cases "i = length gs")
    case True
    then show ?thesis by simp
  next
    case False
    with 1(2) have lt: "i < length gs" by simp
    let ?g = "gs ! i"
    let ?new = "\<lambda>v. c @ [\<lparr>vo_name = og_name ?g, vo_value = ov_value v, vo_id = ov_id v\<rparr>]"
    let ?rest = "product_lists (map groupOptions (drop (i + 1) gs))"
    have dr: "drop i gs = ?g # drop (Suc i) gs"
      using lt by (simp add: Cons_nth_drop_Suc)
    have ih: "\<And>v. v \<in> set (og_values ?g) \<Longrightarrow>
        generateCombinations gs (i + 1) (?new v)
        = Inr (map (\<lambda>suffix. variantOf (?new v @ suffix)) ?rest)"
      using 1(1)[OF False _ refl _ refl] lt by simp
    have "generateCombinations gs i c =
        fold (\<lambda>v results. case results of Inl e \<Rightarrow> Inl e
            | Inr rs \<Rightarrow> (case generateCombinations gs (i + 1) (?new v) of
                 Inl e \<Rightarrow> Inl e | Inr sub \<Rightarrow> Inr (rs @ sub)))
          (og_values ?g) (Inr [])"
      using False lt by (subst generateCombinations.simps) (simp add: Let_def)
    also have "\<dots> = Inr ([] @ concat (map (\<lambda>v. map (\<lambda>suffix. variantOf (?new v @ suffix)) ?rest)
                                  (og_values ?g)))"
      by (rule fold_results) (rule ih)
    also have "\<dots> = Inr (map (\<lambda>suffix. variantOf (c @ suffix))
                         (product_lists (map groupOptions (drop i gs))))"
      by (simp add: dr groupOptions_def map_concat comp_def)
    finally show ?thesis .
  qed
qed

lemma validGroup_filter:
  "(\<lambda>group. og_name group \<noteq> [] \<and> og_values group \<noteq> []) = validGroup"
  by (simp add: validGroup_def fun_eq_iff)

lemma generateVariants_closed:
  "generateVariants groups =
     Inr (if filter validGroup groups = [] then [defaultVariant]
          else map variantOf (product_lists (map groupOptions (filter validGroup groups))))"
  by (auto simp add: generateVariants_def validGroup_filter generateCombinations_drop Let_def
      simp del: generateCombinations.simps)

lemma length_product_lists_prod: "length (product_lists xss) = prod_list (map length xss)"
proof (induction xss)
  case Nil
  show ?case by simp
next
  case (Cons xs xss)
  have "length (concat (map (\<lambda>x. map ((#) x) (product_lists xss)) xs))
        = length xs * length (product_lists xss)"
    by (induction xs) simp_all
  with Cons show ?case by simp
qed

section \<open>Properties of the generator\<close>

text \<open>
  C1 (cardinality law). For every list of option groups, \<open>generateVariants\<close> returns, and
  the number of variants it returns is the product of the sizes of the value lists of the
  valid groups (those with a non-empty name and at least one value); the empty product,
  when no group is valid, is 1.
\<close>

theorem generateVariants_cardinality:
  "\<exists>vs. generateVariants groups = Inr vs \<and>
     length vs = prod_list (map (\<lambda>g. length (og_values g))
                   (filter (\<lambda>g. og_name g \<noteq> [] \<and> og_values g \<noteq> []) groups))"
proof -
  have l: "map length (map groupOptions gs) = map (\<lambda>g. length (og_values g)) gs" for gs
    by (simp add: groupOptions_def)
  show ?thesis
    unfolding validGroup_filter generateVariants_closed
    by (simp add: length_product_lists_prod l del: map_map)
qed

text \<open>
  C2 (default variant). When the group list is empty, or no group has both a non-empty
  name and a non-empty list of values, \<open>generateVariants\<close> returns exactly one variant,
  whose id is \<open>''default''\<close> and whose values and options are empty.
\<close>

theorem generateVariants_default:
  assumes "groups = [] \<or> (\<forall>g \<in> set groups. \<not> (og_name g \<noteq> [] \<and> og_values g \<noteq> []))"
  shows "\<exists>v. generateVariants groups = Inr [v] \<and> gv_id v = ''default'' \<and>
             gv_values v = [] \<and> gv_options v = []"
proof -
  from assms have "filter validGroup groups = []"
    by (auto simp: validGroup_def filter_empty_conv)
  then show ?thesis
    by (simp add: generateVariants_closed defaultVariant_def)
qed

theorem generateVariants_default_witness:
  "\<exists>v. generateVariants [\<lparr>og_name = [], og_values = [\<lparr>ov_value = ''Red'', ov_id = ''r''\<rparr>]\<rparr>,
                           \<lparr>og_name = ''Size'', og_values = []\<rparr>] = Inr [v] \<and>
       gv_id v = ''default'' \<and> gv_values v = [] \<and> gv_options v = []"
  using generateVariants_default
    [of "[\<lparr>og_name = [], og_values = [\<lparr>ov_value = ''Red'', ov_id = ''r''\<rparr>]\<rparr>,
          \<lparr>og_name = ''Size'', og_values = []\<rparr>]"]
  by simp

text \<open>
  C8 (two groups). For valid groups A with values a1, a2 and B with value b1,
  \<open>generateVariants [A, B]\<close> returns exactly two variants, with ids \<open>a1-b1\<close> and
  \<open>a2-b1\<close> in that order (the ids of the selected values joined by \<open>-\<close>), and the
  values of each are the pair of the selected value strings of A and of B.
\<close>

theorem generateVariants_two_groups:
  assumes "nameA \<noteq> []" and "nameB \<noteq> []"
  shows "\<exists>v1 v2.
     generateVariants
       [\<lparr>og_name = nameA, og_values = [\<lparr>ov_value = valueA1, ov_id = a1\<rparr>,
                                       \<lparr>ov_value = valueA2, ov_id = a2\<rparr>]\<rparr>,
        \<lparr>og_name = nameB, og_values = [\<lparr>ov_value = valueB1, ov_id = b1\<rparr>]\<rparr>] = Inr [v1, v2] \<and>
     gv_id v1 = a1 @ ''-'' @ b1 \<and> gv_id v2 = a2 @ ''-'' @ b1 \<and>
     gv_values v1 = [valueA1, valueB1] \<and> gv_values v2 = [valueA2, valueB1]"
  using assms
  by (simp add: generateVariants_closed validGroup_def groupOptions_def variantOf_def)

theorem generateVariants_two_groups_witness:
  "\<exists>v1 v2.
     generateVariants
       [\<lparr>og_name = ''A'', og_values = [\<lparr>ov_value = ''x1'', ov_id = ''a1''\<rparr>,
                                      \<lparr>ov_value = ''x2'', ov_id = ''a2''\<rparr>]\<rparr>,
        \<lparr>og_name = ''B'', og_values = [\<lparr>ov_value = ''y1'', ov_id = ''b1''\<rparr>]\<rparr>] = Inr [v1, v2] \<and>
     gv_id v1 = ''a1-b1'' \<and> gv_id v2 = ''a2-b1'' \<and>
     gv_values v1 = [''x1'', ''y1''] \<and> gv_values v2 = [''x2'', ''y1'']"
  using generateVariants_two_groups [of "''A''" "''B''" "''x1''" "''a1''" "''x2''" "''a2''" "''y1''" "''b1''"]
  by simp

section \<open>Order of the combinations\<close>

lemma sorted_wrt_lexordp_blocks:
  fixes xs :: "'a::linorder list"
  assumes "sorted_wrt (<) xs" and "sorted_wrt ord_class.lexordp P"
  shows "sorted_wrt ord_class.lexordp (concat (map (\<lambda>x. map ((#) x) P) xs))"
  using assms(1)
proof (induction xs)
  case Nil
  show ?case by simp
next
  case (Cons x xs)
  have block: "sorted_wrt ord_class.lexordp (map ((#) x) P)"
    using assms(2) by (simp add: sorted_wrt_map)
  have cross: "ord_class.lexordp a b"
    if "a \<in> set (map ((#) x) P)" "b \<in> set (concat (map (\<lambda>x. map ((#) x) P) xs))" for a b
  proof -
    from that(1) obtain a' where a: "a = x # a'" by auto
    from that(2) obtain y b' where b: "b = y # b'" "y \<in> set xs" by auto
    from Cons.prems b(2) have "x < y" by simp
    with a b show ?thesis by simp
  qed
  from Cons have "sorted_wrt ord_class.lexordp (concat (map (\<lambda>x. map ((#) x) P) xs))" by simp
  with block cross show ?case by (simp add: sorted_wrt_append)
qed

lemma sorted_wrt_lexordp_product_lists:
  fixes xss :: "'a::linorder list list"
  assumes "\<forall>xs \<in> set xss. sorted_wrt (<) xs"
  shows "sorted_wrt ord_class.lexordp (product_lists xss)"
  using assms by (induction xss) (simp_all add: sorted_wrt_lexordp_blocks)

lemma product_lists_by_index:
  "map (\<lambda>js. map2 f gs js) (product_lists (map (\<lambda>g. [0..<n g]) gs))
   = product_lists (map (\<lambda>g. map (f g) [0..<n g]) gs)"
proof (induction gs)
  case Nil
  show ?case by simp
next
  case (Cons g gs)
  let ?P = "product_lists (map (\<lambda>g. [0..<n g]) gs)"
  have "map (\<lambda>js. f g i # map2 f gs js) ?P
        = map ((#) (f g i)) (product_lists (map (\<lambda>g. map (f g) [0..<n g]) gs))" for i
    unfolding Cons.IH[symmetric] by (simp add: comp_def)
  then show ?case by (simp add: map_concat comp_def)
qed

lemma groupOptions_optionAt:
  "groupOptions g = map (optionAt g) [0..<length (og_values g)]"
  by (rule nth_equalityI) (simp_all add: groupOptions_def optionAt_def)

lemma product_lists_selection:
  "product_lists (map groupOptions gs)
   = map (selection gs) (product_lists (map (\<lambda>g. [0..<length (og_values g)]) gs))"
proof -
  have "map groupOptions gs = map (\<lambda>g. map (optionAt g) [0..<length (og_values g)]) gs"
    by (rule map_cong) (simp_all add: groupOptions_optionAt)
  moreover have "selection gs = (\<lambda>js. map2 optionAt gs js)"
    by (simp add: selection_def fun_eq_iff)
  ultimately show ?thesis
    by (simp only: product_lists_by_index)
qed

lemma index_vectors_set:
  "set (product_lists (map (\<lambda>g. [0..<length (og_values g)]) gs))
   = {js. list_all2 (\<lambda>j g. j < length (og_values g)) js gs}"
  by (simp add: product_lists_set list_all2_map2)

lemma options_variantOf: "map gv_options (map variantOf cs) = cs"
  by (induction cs) (simp_all add: variantOf_def)

lemma values_variantOf: "map gv_values (map variantOf cs) = map (map vo_value) cs"
  by (induction cs) (simp_all add: variantOf_def)

text \<open>
  C3 (ordered Cartesian product). The valid groups are the groups that pass the filter,
  in their original order. The variants returned hold, in this order, the combinations
  \<open>selection valid js\<close> for the index vectors \<open>js\<close> of a list \<open>ivs\<close>: the options of
  the \<open>n\<close>-th variant are the \<open>n\<close>-th combination and its values are the value strings
  of that combination. The list \<open>ivs\<close> holds every vector with one in-range value
  position per valid group (the full Cartesian product) in strictly increasing
  lexicographic order: the position in the first valid group is the most significant, so
  the first group varies slowest, and within a group the values come in their given
  order. With no valid group the only vector is the empty one and the variant is the
  default variant, whose options are the empty combination.
\<close>

theorem generateVariants_lexicographic:
  "\<exists>vs ivs.
     generateVariants groups = Inr vs \<and>
     map gv_options vs =
       map (selection (filter (\<lambda>g. og_name g \<noteq> [] \<and> og_values g \<noteq> []) groups)) ivs \<and>
     map gv_values vs =
       map (\<lambda>js. map vo_value
                   (selection (filter (\<lambda>g. og_name g \<noteq> [] \<and> og_values g \<noteq> []) groups) js))
           ivs \<and>
     sorted_wrt ord_class.lexordp ivs \<and>
     set ivs = {js. list_all2 (\<lambda>j g. j < length (og_values g)) js
                      (filter (\<lambda>g. og_name g \<noteq> [] \<and> og_values g \<noteq> []) groups)} \<and>
     vs = (if filter (\<lambda>g. og_name g \<noteq> [] \<and> og_values g \<noteq> []) groups = []
           then [defaultVariant]
           else map (\<lambda>js. variantOf
                       (selection (filter (\<lambda>g. og_name g \<noteq> [] \<and> og_values g \<noteq> []) groups) js))
                  ivs)"
proof -
  let ?valid = "filter validGroup groups"
  let ?ivs = "product_lists (map (\<lambda>g. [0..<length (og_values g)]) ?valid)"
  let ?vs = "if ?valid = [] then [defaultVariant]
             else map (\<lambda>js. variantOf (selection ?valid js)) ?ivs"
  have gen: "generateVariants groups = Inr ?vs"
    by (simp add: generateVariants_closed product_lists_selection comp_def)
  have sorted: "sorted_wrt ord_class.lexordp ?ivs"
    by (rule sorted_wrt_lexordp_product_lists) (auto simp: sorted_wrt_iff_nth_less)
  have full: "set ?ivs = {js. list_all2 (\<lambda>j g. j < length (og_values g)) js ?valid}"
    by (rule index_vectors_set)
  have opts: "map gv_options ?vs = map (selection ?valid) ?ivs"
  proof (cases "?valid = []")
    case True
    then show ?thesis by (simp add: defaultVariant_def selection_def)
  next
    case False
    have "map gv_options (map variantOf (map (selection ?valid) ?ivs))
          = map (selection ?valid) ?ivs"
      by (rule options_variantOf)
    with False show ?thesis by (simp add: comp_def)
  qed
  have vals: "map gv_values ?vs = map (\<lambda>js. map vo_value (selection ?valid js)) ?ivs"
  proof (cases "?valid = []")
    case True
    then show ?thesis by (simp add: defaultVariant_def selection_def)
  next
    case False
    have "map gv_values (map variantOf (map (selection ?valid) ?ivs))
          = map (map vo_value) (map (selection ?valid) ?ivs)"
      by (rule values_variantOf)
    with False show ?thesis by (simp add: comp_def)
  qed
  from gen opts vals sorted full show ?thesis
    unfolding validGroup_filter by blast
qed

section \<open>Uniqueness of the joined ids\<close>

lemma dash_split:
  "c \<notin> set x \<Longrightarrow> c \<notin> set y \<Longrightarrow> x @ c # r = y @ c # s \<Longrightarrow> x = y \<and> r = s"
proof (induction x arbitrary: y)
  case Nil
  then show ?case by (cases y) auto
next
  case (Cons a x)
  then show ?case by (cases y) auto
qed

lemma join_dash_inj:
  assumes "length xs = length ys"
    and "\<forall>x \<in> set xs. CHR ''-'' \<notin> set x"
    and "\<forall>y \<in> set ys. CHR ''-'' \<notin> set y"
    and "join ''-'' xs = join ''-'' ys"
  shows "xs = ys"
  using assms
proof (induction xs ys rule: list_induct2)
  case Nil
  show ?case by simp
next
  case (Cons x xs y ys)
  show ?case
  proof (cases xs)
    case Nil
    with Cons show ?thesis by simp
  next
    case xs: (Cons x' xs')
    with Cons(1) obtain y' ys' where ys: "ys = y' # ys'" by (cases ys) auto
    from Cons(5) have "x @ CHR ''-'' # join ''-'' xs = y @ CHR ''-'' # join ''-'' ys"
      by (simp add: xs ys)
    with Cons(3,4) have "x = y \<and> join ''-'' xs = join ''-'' ys"
      by (intro dash_split[of "CHR ''-''"]) auto
    with Cons show ?thesis by simp
  qed
qed

lemma map_product_lists: "map (map f) (product_lists xss) = product_lists (map (map f) xss)"
proof (induction xss)
  case Nil
  show ?case by simp
next
  case (Cons xs xss)
  have "map (\<lambda>ys. f x # map f ys) (product_lists xss)
        = map ((#) (f x)) (product_lists (map (map f) xss))" for x
    unfolding Cons.IH[symmetric] by (simp add: comp_def)
  then show ?case by (simp add: map_concat comp_def)
qed

lemma in_product_lists_member:
  "zs \<in> set (product_lists xss) \<Longrightarrow> x \<in> set zs \<Longrightarrow> \<exists>xs \<in> set xss. x \<in> set xs"
proof (induction xss arbitrary: zs)
  case Nil
  then show ?case by simp
next
  case (Cons ys xss)
  from Cons.prems(1) obtain y zs' where zs: "zs = y # zs'" "y \<in> set ys"
    "zs' \<in> set (product_lists xss)"
    by auto
  show ?case
  proof (cases "x = y")
    case True
    with zs show ?thesis by auto
  next
    case False
    with Cons.prems(2) zs have "x \<in> set zs'" by simp
    with Cons.IH[OF zs(3)] show ?thesis by auto
  qed
qed

lemma join_uniform_inj:
  assumes "length xs = length ys"
    and "\<forall>x \<in> set xs. length x = n"
    and "\<forall>y \<in> set ys. length y = n"
    and "join sep xs = join sep ys"
  shows "xs = ys"
  using assms
proof (induction xs ys rule: list_induct2)
  case Nil
  show ?case by simp
next
  case (Cons x xs y ys)
  show ?case
  proof (cases xs)
    case Nil
    with Cons show ?thesis by simp
  next
    case xs: (Cons x' xs')
    with Cons(1) obtain y' ys' where ys: "ys = y' # ys'" by (cases ys) auto
    from Cons(5) have "x @ (sep @ join sep xs) = y @ (sep @ join sep ys)"
      by (simp add: xs ys)
    moreover from Cons(3,4) have "length x = length y" by simp
    ultimately have "x = y \<and> join sep xs = join sep ys" by simp
    with Cons show ?thesis by simp
  qed
qed

text \<open>
  C4 (unique ids), as amended. Uniqueness of the value ids within each group is not
  enough, since the separator may occur inside an id. When in addition no value id
  contains the separator \<open>-\<close>, or all value ids have the same length, no two variants
  returned by \<open>generateVariants\<close> have the same id.
\<close>

theorem generateVariants_ids_distinct:
  assumes uniq: "\<forall>g \<in> set groups. distinct (map ov_id (og_values g))"
    and sep: "(\<forall>g \<in> set groups. \<forall>v \<in> set (og_values g). CHR ''-'' \<notin> set (ov_id v)) \<or>
              (\<exists>n. \<forall>g \<in> set groups. \<forall>v \<in> set (og_values g). length (ov_id v) = n)"
  shows "\<exists>vs. generateVariants groups = Inr vs \<and> distinct (map gv_id vs)"
proof (cases "filter validGroup groups = []")
  case True
  then show ?thesis by (simp add: generateVariants_closed)
next
  case False
  let ?valid = "filter validGroup groups"
  let ?idss = "map (\<lambda>g. map ov_id (og_values g)) ?valid"
  have ids: "map gv_id (map variantOf cs) = map (join ''-'') (map (map vo_id) cs)" for cs
    by (simp add: variantOf_def)
  have idss: "map (map vo_id) (map groupOptions gs) = map (\<lambda>g. map ov_id (og_values g)) gs" for gs
    by (simp add: groupOptions_def comp_def)
  have d: "distinct (product_lists ?idss)"
    using uniq by (intro distinct_product_lists) auto
  have member: "\<exists>g \<in> set groups. \<exists>v \<in> set (og_values g). x = ov_id v"
    if "zs \<in> set (product_lists ?idss)" "x \<in> set zs" for zs x
  proof -
    from that obtain ids where "ids \<in> set ?idss" "x \<in> set ids"
      by (blast dest: in_product_lists_member)
    then show ?thesis by fastforce
  qed
  have inj: "inj_on (join ''-'') (set (product_lists ?idss))"
  proof (rule inj_onI)
    fix xs ys
    assume xs: "xs \<in> set (product_lists ?idss)" and ys: "ys \<in> set (product_lists ?idss)"
      and eq: "join ''-'' xs = join ''-'' ys"
    have len: "length xs = length ys"
      using xs ys by (simp add: in_set_product_lists_length)
    from sep show "xs = ys"
    proof
      assume nodash: "\<forall>g \<in> set groups. \<forall>v \<in> set (og_values g). CHR ''-'' \<notin> set (ov_id v)"
      have "\<forall>x \<in> set zs. CHR ''-'' \<notin> set x" if "zs \<in> set (product_lists ?idss)" for zs
        using member[OF that] nodash by blast
      with len xs ys eq show ?thesis by (intro join_dash_inj) auto
    next
      assume "\<exists>n. \<forall>g \<in> set groups. \<forall>v \<in> set (og_values g). length (ov_id v) = n"
      then obtain n where n: "\<forall>g \<in> set groups. \<forall>v \<in> set (og_values g). length (ov_id v) = n" ..
      have "\<forall>x \<in> set zs. length x = n" if "zs \<in> set (product_lists ?idss)" for zs
        using member[OF that] n by blast
      with len xs ys eq show ?thesis by (intro join_uniform_inj[of xs ys n "''-''"]) auto
    qed
  qed
  have "distinct (map (join ''-'') (product_lists ?idss))"
    using d inj by (simp add: distinct_map)
  then show ?thesis
    using False
    by (simp add: generateVariants_closed ids idss map_product_lists del: map_map)
qed

theorem generateVariants_ids_distinct_witness:
  "(\<exists>vs. generateVariants
          [\<lparr>og_name = ''Color'', og_values = [\<lparr>ov_value = ''Red'', ov_id = ''r''\<rparr>,
                                             \<lparr>ov_value = ''Blue'', ov_id = ''b''\<rparr>]\<rparr>,
           \<lparr>og_name = ''Size'', og_values = [\<lparr>ov_value = ''S'', ov_id = ''sm''\<rparr>]\<rparr>] = Inr vs \<and>
        distinct (map gv_id vs)) \<and>
   (\<exists>vs. generateVariants
          [\<lparr>og_name = ''Color'', og_values = [\<lparr>ov_value = ''Red'', ov_id = ''-r''\<rparr>,
                                             \<lparr>ov_value = ''Blue'', ov_id = ''b-''\<rparr>]\<rparr>,
           \<lparr>og_name = ''Size'', og_values = [\<lparr>ov_value = ''S'', ov_id = ''--''\<rparr>]\<rparr>] = Inr vs \<and>
        distinct (map gv_id vs))"
  using generateVariants_ids_distinct
    [of "[\<lparr>og_name = ''Color'', og_values = [\<lparr>ov_value = ''Red'', ov_id = ''r''\<rparr>,
                                             \<lparr>ov_value = ''Blue'', ov_id = ''b''\<rparr>]\<rparr>,
           \<lparr>og_name = ''Size'', og_values = [\<lparr>ov_value = ''S'', ov_id = ''sm''\<rparr>]\<rparr>]"]
    generateVariants_ids_distinct
    [of "[\<lparr>og_name = ''Color'', og_values = [\<lparr>ov_value = ''Red'', ov_id = ''-r''\<rparr>,
                                             \<lparr>ov_value = ''Blue'', ov_id = ''b-''\<rparr>]\<rparr>,
           \<lparr>og_name = ''Size'', og_values = [\<lparr>ov_value = ''S'', ov_id = ''--''\<rparr>]\<rparr>]"]
  by simp

text \<open>
  The claim as stated fails: the ids \<open>a\<close>, \<open>a-b\<close> of group A and \<open>b-c\<close>, \<open>c\<close> of
  group B are unique within their groups, yet the first and the last of the four
  combinations both get the id \<open>a-b-c\<close>.
\<close>

theorem generateVariants_ids_counterexample:
  "distinct (map ov_id [\<lparr>ov_value = ''x'', ov_id = ''a''\<rparr>, \<lparr>ov_value = ''y'', ov_id = ''a-b''\<rparr>]) \<and>
   distinct (map ov_id [\<lparr>ov_value = ''p'', ov_id = ''b-c''\<rparr>, \<lparr>ov_value = ''q'', ov_id = ''c''\<rparr>]) \<and>
   (case generateVariants
           [\<lparr>og_name = ''A'', og_values = [\<lparr>ov_value = ''x'', ov_id = ''a''\<rparr>,
                                          \<lparr>ov_value = ''y'', ov_id = ''a-b''\<rparr>]\<rparr>,
            \<lparr>og_name = ''B'', og_values = [\<lparr>ov_value = ''p'', ov_id = ''b-c''\<rparr>,
                                          \<lparr>ov_value = ''q'', ov_id = ''c''\<rparr>]\<rparr>] of
      Inl e \<Rightarrow> [] | Inr vs \<Rightarrow> map gv_id vs)
     = [''a-b-c'', ''a-c'', ''a-b-b-c'', ''a-b-c''] \<and>
   \<not> distinct [''a-b-c'', ''a-c'', ''a-b-b-c'', ''a-b-c'']"
  by (simp add: generateVariants_def variantOf_def Let_def)

section \<open>Reconciliation and emission in closed form\<close>

lemma getProperty_own: "obj key = Some entry \<Longrightarrow> getProperty obj key = Some entry"
  by (simp add: getProperty_def)

lemma getProperty_None:
  "getProperty obj key = None \<longleftrightarrow> obj key = None \<and> key \<notin> set inheritedMembers"
  by (simp add: getProperty_def split: option.split)

lemma getProperty_plain:
  "key \<notin> set inheritedMembers \<Longrightarrow> getProperty obj key = obj key"
  by (simp add: getProperty_def split: option.split)

lemma sync_fold:
  "fold (\<lambda>variant updatedVariants.
            if getProperty updatedVariants (gv_id variant) = None
            then updatedVariants(gv_id variant \<mapsto> initialEntry)
            else updatedVariants) variants m k
   = (case m k of
        Some e \<Rightarrow> Some e
      | None \<Rightarrow> if k \<in> gv_id ` set variants \<and> k \<notin> set inheritedMembers
                then Some initialEntry else None)"
proof (induction variants arbitrary: m)
  case Nil
  show ?case by (simp split: option.split)
next
  case (Cons v vs)
  show ?case
  proof (cases "getProperty m (gv_id v) = None")
    case True
    then have "m (gv_id v) = None" and "gv_id v \<notin> set inheritedMembers"
      by (simp_all add: getProperty_None)
    with True show ?thesis
      by (auto simp: Cons.IH split: option.split)
  next
    case False
    then have "m (gv_id v) \<noteq> None \<or> gv_id v \<in> set inheritedMembers"
      by (simp add: getProperty_None)
    with False show ?thesis
      by (auto simp: Cons.IH split: option.split)
  qed
qed

lemma syncVariants_lookup:
  "syncVariants \<lparr>fv_variants = Some previous\<rparr> variants k
   = (case previous k of
        Some e \<Rightarrow> Some e
      | None \<Rightarrow> if k \<in> gv_id ` set variants \<and> k \<notin> set inheritedMembers
                then Some initialEntry else None)"
  by (simp add: syncVariants_def sync_fold)

lemma active_fold:
  "fold (\<lambda>variant activeVariants.
            case getProperty m (gv_id variant) of
              None \<Rightarrow> activeVariants
            | Some formVariant \<Rightarrow> activeVariants @ [activeVariantOf formVariant variant])
        variants acc
   = acc @ map (\<lambda>variant. activeVariantOf (the (getProperty m (gv_id variant))) variant)
             (filter (\<lambda>variant. getProperty m (gv_id variant) \<noteq> None) variants)"
  by (induction variants arbitrary: acc) (auto split: option.split)

lemma filteredData_closed:
  "filteredData optionGroups variants (Some \<lparr>fv_variants = Some edited\<rparr>)
   = \<lparr>vc_optionGroups = optionGroups,
      vc_variants = map (\<lambda>variant. activeVariantOf (the (getProperty edited (gv_id variant))) variant)
                      (filter (\<lambda>variant. getProperty edited (gv_id variant) \<noteq> None) variants)\<rparr>"
  by (simp add: filteredData_def active_fold)

text \<open>
  The \<^verbatim>\<open>|| {}\<close> fallbacks: a missing value or a missing \<^verbatim>\<open>variants\<close> is read as the
  empty record.
\<close>

lemma filteredData_no_record:
  "filteredData optionGroups variants None
   = filteredData optionGroups variants (Some \<lparr>fv_variants = Some Map.empty\<rparr>)"
  "filteredData optionGroups variants (Some \<lparr>fv_variants = None\<rparr>)
   = filteredData optionGroups variants (Some \<lparr>fv_variants = Some Map.empty\<rparr>)"
  by (simp_all add: filteredData_def)

lemma syncVariants_no_record:
  "syncVariants \<lparr>fv_variants = None\<rparr> variants
   = syncVariants \<lparr>fv_variants = Some Map.empty\<rparr> variants"
  by (simp add: syncVariants_def)

lemma map_filter_cong:
  assumes "\<And>x. x \<in> set xs \<Longrightarrow> p x = q x"
    and "\<And>x. x \<in> set xs \<Longrightarrow> q x \<Longrightarrow> f x = g x"
  shows "map f (filter p xs) = map g (filter q xs)"
  using assms by (induction xs) auto

lemma getProperty_restrict:
  "key \<in> S \<Longrightarrow> getProperty (obj |` S) key = getProperty obj key"
  by (simp add: getProperty_def)

lemma filteredData_restrict:
  "filteredData optionGroups variants (Some \<lparr>fv_variants = Some (edited |` (gv_id ` set variants))\<rparr>)
   = filteredData optionGroups variants (Some \<lparr>fv_variants = Some edited\<rparr>)"
proof -
  have "map (\<lambda>variant. activeVariantOf
               (the (getProperty (edited |` (gv_id ` set variants)) (gv_id variant))) variant)
          (filter (\<lambda>variant. getProperty (edited |` (gv_id ` set variants)) (gv_id variant) \<noteq> None)
             variants)
        = map (\<lambda>variant. activeVariantOf (the (getProperty edited (gv_id variant))) variant)
            (filter (\<lambda>variant. getProperty edited (gv_id variant) \<noteq> None) variants)"
    by (rule map_filter_cong) (simp_all add: getProperty_restrict)
  then show ?thesis
    by (simp only: filteredData_closed)
qed

section \<open>Properties of reconciliation and emission\<close>

text \<open>
  C5 (reconciliation), as amended. The code tests \<^verbatim>\<open>!updatedVariants[variant.id]\<close>, and
  that read also finds the members a plain object inherits. For every previous record
  and every generated list: the reconciled record has an entry for every generated id
  that had an entry before or is not the name of an inherited member; an entry of the
  previous record is kept unchanged; and the entry of a generated id that the previous
  record did not hold and that is not the name of an inherited member is exactly
  \<^verbatim>\<open>{ enabled: true, sku: '', price: '', stock: '' }\<close>.
\<close>

theorem syncVariants_reconciles:
  "(\<forall>v \<in> set variants.
      previous (gv_id v) \<noteq> None \<or> gv_id v \<notin> set inheritedMembers \<longrightarrow>
      syncVariants \<lparr>fv_variants = Some previous\<rparr> variants (gv_id v) \<noteq> None) \<and>
   (\<forall>k e. previous k = Some e \<longrightarrow>
      syncVariants \<lparr>fv_variants = Some previous\<rparr> variants k = Some e) \<and>
   (\<forall>v \<in> set variants. previous (gv_id v) = None \<longrightarrow> gv_id v \<notin> set inheritedMembers \<longrightarrow>
      syncVariants \<lparr>fv_variants = Some previous\<rparr> variants (gv_id v)
      = Some \<lparr>vf_enabled = Some True, vf_sku = Some [], vf_price = Some [], vf_stock = Some []\<rparr>)"
  by (auto simp: syncVariants_lookup initialEntry_def split: option.split)

theorem syncVariants_reconciles_witness:
  "syncVariants
     \<lparr>fv_variants = Some [''a1-b1'' \<mapsto>
        \<lparr>vf_enabled = Some False, vf_sku = Some ''X'', vf_price = Some ''5'', vf_stock = Some ''2''\<rparr>]\<rparr>
     [defaultVariant\<lparr>gv_id := ''a1-b1''\<rparr>, defaultVariant\<lparr>gv_id := ''a2-b1''\<rparr>] ''a1-b1''
   = Some \<lparr>vf_enabled = Some False, vf_sku = Some ''X'', vf_price = Some ''5'', vf_stock = Some ''2''\<rparr> \<and>
   syncVariants
     \<lparr>fv_variants = Some [''a1-b1'' \<mapsto>
        \<lparr>vf_enabled = Some False, vf_sku = Some ''X'', vf_price = Some ''5'', vf_stock = Some ''2''\<rparr>]\<rparr>
     [defaultVariant\<lparr>gv_id := ''a1-b1''\<rparr>, defaultVariant\<lparr>gv_id := ''a2-b1''\<rparr>] ''a2-b1''
   = Some \<lparr>vf_enabled = Some True, vf_sku = Some [], vf_price = Some [], vf_stock = Some []\<rparr>"
  using syncVariants_reconciles
    [of "[defaultVariant\<lparr>gv_id := ''a1-b1''\<rparr>, defaultVariant\<lparr>gv_id := ''a2-b1''\<rparr>]"
        "[''a1-b1'' \<mapsto>
          \<lparr>vf_enabled = Some False, vf_sku = Some ''X'', vf_price = Some ''5'', vf_stock = Some ''2''\<rparr>]"]
  by (simp add: inheritedMembers_def)

text \<open>
  The claim as stated fails: the single group A with the one value id \<open>constructor\<close>
  generates the variant with that id, the previous record is empty, and the read
  \<^verbatim>\<open>updatedVariants['constructor']\<close> finds the inherited member, so the reconciled record
  gets no entry for the generated id.
\<close>

theorem syncVariants_reconciles_counterexample:
  "generateVariants [\<lparr>og_name = ''A'', og_values = [\<lparr>ov_value = ''x'', ov_id = ''constructor''\<rparr>]\<rparr>]
   = Inr [\<lparr>gv_id = ''constructor'', gv_name = ''x'', gv_values = [''x''],
           gv_options = [\<lparr>vo_name = ''A'', vo_value = ''x'', vo_id = ''constructor''\<rparr>],
           gv_enabled = True, gv_sku = [], gv_price = [], gv_stock = []\<rparr>] \<and>
   syncVariants \<lparr>fv_variants = Some Map.empty\<rparr>
     [\<lparr>gv_id = ''constructor'', gv_name = ''x'', gv_values = [''x''],
       gv_options = [\<lparr>vo_name = ''A'', vo_value = ''x'', vo_id = ''constructor''\<rparr>],
       gv_enabled = True, gv_sku = [], gv_price = [], gv_stock = []\<rparr>] ''constructor''
   = None"
  by (simp add: generateVariants_def variantOf_def Let_def syncVariants_def getProperty_def
      inheritedMembers_def)

text \<open>
  C6 (output filtering), as amended. The code reads \<^verbatim>\<open>formVariants[variant.id]\<close>, and
  that read also finds the members a plain object inherits. When no generated id that
  is absent from the edited record is the name of an inherited member, the payload handed
  to \<^verbatim>\<open>onChange\<close> holds the option groups as given and, for the generated variants whose
  id has an entry in the edited record, in generator order, the row built from that entry
  and the variant's options. A generated variant whose id has no entry contributes no
  row, and nothing is raised.
\<close>

theorem watchCallback_filters:
  assumes "\<forall>variant \<in> set variants.
             edited (gv_id variant) = None \<longrightarrow> gv_id variant \<notin> set inheritedMembers"
  shows "watchCallback True optionGroups variants (Some \<lparr>fv_variants = Some edited\<rparr>) emitted
   = emitted @
     [\<lparr>vc_optionGroups = optionGroups,
       vc_variants = map (\<lambda>variant. activeVariantOf (the (edited (gv_id variant))) variant)
                       (filter (\<lambda>variant. edited (gv_id variant) \<noteq> None) variants)\<rparr>]"
proof -
  have same: "getProperty edited (gv_id variant) = edited (gv_id variant)"
    if "variant \<in> set variants" for variant
    using assms that by (cases "edited (gv_id variant)") (auto simp: getProperty_def)
  have "map (\<lambda>variant. activeVariantOf (the (getProperty edited (gv_id variant))) variant)
          (filter (\<lambda>variant. getProperty edited (gv_id variant) \<noteq> None) variants)
        = map (\<lambda>variant. activeVariantOf (the (edited (gv_id variant))) variant)
            (filter (\<lambda>variant. edited (gv_id variant) \<noteq> None) variants)"
    by (rule map_filter_cong) (simp_all add: same)
  then show ?thesis
    by (simp only: watchCallback_def filteredData_closed if_True)
qed

theorem watchCallback_filters_witness:
  "watchCallback True []
     [defaultVariant\<lparr>gv_id := ''r''\<rparr>, defaultVariant\<lparr>gv_id := ''b''\<rparr>]
     (Some \<lparr>fv_variants = Some [''r'' \<mapsto>
        \<lparr>vf_enabled = Some True, vf_sku = Some ''RED-1'', vf_price = Some [], vf_stock = Some []\<rparr>]\<rparr>)
     []
   = [\<lparr>vc_optionGroups = [],
       vc_variants = [\<lparr>av_enabled = True, av_sku = ''RED-1'', av_price = [], av_stock = [],
                       av_options = []\<rparr>]\<rparr>]"
  using watchCallback_filters
    [of "[defaultVariant\<lparr>gv_id := ''r''\<rparr>, defaultVariant\<lparr>gv_id := ''b''\<rparr>]"
        "[''r'' \<mapsto>
          \<lparr>vf_enabled = Some True, vf_sku = Some ''RED-1'', vf_price = Some [], vf_stock = Some []\<rparr>]"
        "[]" "[]"]
  by (simp add: inheritedMembers_def activeVariantOf_def nullish_def defaultVariant_def)

text \<open>
  The claim as stated fails: the single group A with the one value id \<open>toString\<close>
  generates the variant with that id, the edited record is empty, and the read
  \<^verbatim>\<open>formVariants['toString']\<close> finds the inherited member, so a row is emitted for an id
  that is absent from the edited record.
\<close>

theorem watchCallback_filters_counterexample:
  "generateVariants [\<lparr>og_name = ''A'', og_values = [\<lparr>ov_value = ''x'', ov_id = ''toString''\<rparr>]\<rparr>]
   = Inr [\<lparr>gv_id = ''toString'', gv_name = ''x'', gv_values = [''x''],
           gv_options = [\<lparr>vo_name = ''A'', vo_value = ''x'', vo_id = ''toString''\<rparr>],
           gv_enabled = True, gv_sku = [], gv_price = [], gv_stock = []\<rparr>] \<and>
   (Map.empty :: VariantRecord) ''toString'' = None \<and>
   watchCallback True []
     [\<lparr>gv_id = ''toString'', gv_name = ''x'', gv_values = [''x''],
       gv_options = [\<lparr>vo_name = ''A'', vo_value = ''x'', vo_id = ''toString''\<rparr>],
       gv_enabled = True, gv_sku = [], gv_price = [], gv_stock = []\<rparr>]
     (Some \<lparr>fv_variants = Some Map.empty\<rparr>) []
   = [\<lparr>vc_optionGroups = [],
       vc_variants = [\<lparr>av_enabled = True, av_sku = [], av_price = [], av_stock = [],
                       av_options = [\<lparr>vo_name = ''A'', vo_value = ''x'', vo_id = ''toString''\<rparr>]\<rparr>]\<rparr>]"
  by (simp add: generateVariants_def variantOf_def Let_def watchCallback_def filteredData_def
      getProperty_def inheritedMembers_def inheritedMember_def activeVariantOf_def nullish_def)

text \<open>
  C7 (stale entries). Reconciliation leaves the record unchanged at every id that is not
  the id of a generated variant: a stale entry is neither removed nor modified. The
  emitted payload does not see such entries: it is the same whether it is built from the
  reconciled record or from the reconciled record cut down to the generated ids.
\<close>

theorem stale_entries_retained_not_emitted:
  "(\<forall>k. k \<notin> gv_id ` set variants \<longrightarrow>
      syncVariants \<lparr>fv_variants = Some previous\<rparr> variants k = previous k) \<and>
   filteredData optionGroups variants
     (Some \<lparr>fv_variants = Some (syncVariants \<lparr>fv_variants = Some previous\<rparr> variants)\<rparr>)
   = filteredData optionGroups variants
       (Some \<lparr>fv_variants =
          Some (syncVariants \<lparr>fv_variants = Some previous\<rparr> variants |` (gv_id ` set variants))\<rparr>)"
  by (auto simp: syncVariants_lookup filteredData_restrict split: option.split)

theorem stale_entries_retained_not_emitted_witness:
  "syncVariants
     \<lparr>fv_variants = Some [''old'' \<mapsto>
        \<lparr>vf_enabled = Some False, vf_sku = Some ''X'', vf_price = Some ''5'', vf_stock = Some ''2''\<rparr>]\<rparr>
     [defaultVariant\<lparr>gv_id := ''r''\<rparr>] ''old''
   = Some \<lparr>vf_enabled = Some False, vf_sku = Some ''X'', vf_price = Some ''5'', vf_stock = Some ''2''\<rparr> \<and>
   vc_variants (filteredData [] [defaultVariant\<lparr>gv_id := ''r''\<rparr>]
     (Some \<lparr>fv_variants = Some (syncVariants
        \<lparr>fv_variants = Some [''old'' \<mapsto>
           \<lparr>vf_enabled = Some False, vf_sku = Some ''X'', vf_price = Some ''5'',
            vf_stock = Some ''2''\<rparr>]\<rparr>
        [defaultVariant\<lparr>gv_id := ''r''\<rparr>])\<rparr>))
   = [\<lparr>av_enabled = True, av_sku = [], av_price = [], av_stock = [], av_options = []\<rparr>]"
  using stale_entries_retained_not_emitted
    [of "[defaultVariant\<lparr>gv_id := ''r''\<rparr>]"
        "[''old'' \<mapsto>
          \<lparr>vf_enabled = Some False, vf_sku = Some ''X'', vf_price = Some ''5'', vf_stock = Some ''2''\<rparr>]"
        "[]"]
  by (simp add: filteredData_closed syncVariants_lookup initialEntry_def activeVariantOf_def
      nullish_def defaultVariant_def getProperty_def inheritedMembers_def)

text \<open>
  C10 (defaults at emission). The rows of the emitted payload are exactly the rows built
  from a generated variant and the truthy \<^verbatim>\<open>formVariant\<close> that the read
  \<^verbatim>\<open>formVariants[variant.id]\<close> finds for it, where a field that \<^verbatim>\<open>formVariant\<close> lacks
  is defaulted: \<open>enabled\<close> to true, and \<open>sku\<close>, \<open>price\<close> and \<open>stock\<close> to the empty
  string. Hence every emitted row has all four fields defined.
\<close>

theorem emitted_rows_defaulted:
  "set (vc_variants (filteredData optionGroups variants (Some \<lparr>fv_variants = Some edited\<rparr>)))
   = {\<lparr>av_enabled = (case vf_enabled formVariant of None \<Rightarrow> True | Some b \<Rightarrow> b),
        av_sku = (case vf_sku formVariant of None \<Rightarrow> [] | Some s \<Rightarrow> s),
        av_price = (case vf_price formVariant of None \<Rightarrow> [] | Some s \<Rightarrow> s),
        av_stock = (case vf_stock formVariant of None \<Rightarrow> [] | Some s \<Rightarrow> s),
        av_options = gv_options variant\<rparr> | variant formVariant.
      variant \<in> set variants \<and> getProperty edited (gv_id variant) = Some formVariant}"
proof -
  have "set (vc_variants (filteredData optionGroups variants (Some \<lparr>fv_variants = Some edited\<rparr>)))
        = (\<lambda>variant. activeVariantOf (the (getProperty edited (gv_id variant))) variant) `
            {variant \<in> set variants. getProperty edited (gv_id variant) \<noteq> None}"
    by (simp add: filteredData_closed)
  also have "\<dots> = {activeVariantOf formVariant variant | variant formVariant.
                      variant \<in> set variants \<and> getProperty edited (gv_id variant) = Some formVariant}"
    by force
  finally show ?thesis
    by (simp add: activeVariantOf_def nullish_def)
qed

end
